theory Spec2Isabelle
  imports Main "HOL-Library.Word"
begin

section \<open>Reference names over the top-level index (oci/casext/refname.go)\<close>

subsection \<open>Data model\<close>

text \<open>
  A Go map of type \<open>map[string]string\<close> may be nil. Reading a nil map, or a key that is
  not there, gives the zero value (the empty string); the two-valued read also says
  whether the key was there. \<open>None\<close> is the nil map.
\<close>

type_synonym annotations = "(string \<rightharpoonup> string) option"

definition map_index :: "annotations \<Rightarrow> string \<Rightarrow> string" where
  "map_index m k = (case m of None \<Rightarrow> '''' | Some f \<Rightarrow> (case f k of None \<Rightarrow> '''' | Some v \<Rightarrow> v))"

definition map_index_ok :: "annotations \<Rightarrow> string \<Rightarrow> string \<times> bool" where
  "map_index_ok m k =
     (case m of None \<Rightarrow> ('''', False)
      | Some f \<Rightarrow> (case f k of None \<Rightarrow> ('''', False) | Some v \<Rightarrow> (v, True)))"

text \<open>\<open>ispec.Descriptor\<close>: the digest is a string type, the size an \<open>int64\<close>.\<close>

record Descriptor =
  MediaType :: string
  Digest :: string
  Size :: "64 word"
  URLs :: "string list"
  Annotations :: annotations

text \<open>\<open>ispec.Index\<close>. A slice is a list; the nil slice is the empty list.\<close>

record Index =
  SchemaVersion :: int
  Manifests :: "Descriptor list"
  IndexAnnotations :: annotations

text \<open>The constants of the image specification that the code names.\<close>

definition AnnotationRefName :: string where
  "AnnotationRefName = ''org.opencontainers.image.ref.name''"

definition MediaTypeDescriptor :: string where
  "MediaTypeDescriptor = ''application/vnd.oci.descriptor.v1+json''"

definition MediaTypeImageManifest :: string where
  "MediaTypeImageManifest = ''application/vnd.oci.image.manifest.v1+json''"

definition MediaTypeImageIndex :: string where
  "MediaTypeImageIndex = ''application/vnd.oci.image.index.v1+json''"

definition MediaTypeImageLayer :: string where
  "MediaTypeImageLayer = ''application/vnd.oci.image.layer.v1.tar''"

definition MediaTypeImageLayerGzip :: string where
  "MediaTypeImageLayerGzip = ''application/vnd.oci.image.layer.v1.tar+gzip''"

definition MediaTypeImageLayerNonDistributable :: string where
  "MediaTypeImageLayerNonDistributable =
     ''application/vnd.oci.image.layer.nondistributable.v1.tar''"

definition MediaTypeImageLayerNonDistributableGzip :: string where
  "MediaTypeImageLayerNonDistributableGzip =
     ''application/vnd.oci.image.layer.nondistributable.v1.tar+gzip''"

definition MediaTypeImageConfig :: string where
  "MediaTypeImageConfig = ''application/vnd.oci.image.config.v1+json''"

subsection \<open>Errors and the log\<close>

text \<open>
  \<open>ErrSkipDescriptor\<close> is the sentinel a walk function returns to prune; \<open>Failure\<close> is
  any failure of a collaborator; \<open>Wrap err msg\<close> is \<open>errors.Wrap(err, msg)\<close>.
\<close>

datatype error = ErrSkipDescriptor | Failure string | Wrap error string

datatype level = DebugLevel | WarnLevel

datatype store_call = CallGetIndex | CallPutIndex Index

text \<open>
  The content of the blob a descriptor names: it cannot be read, or it is read and parsed
  into its child descriptors, each with its own content. The graph is content addressed,
  so what lies below a descriptor is a finite tree.
\<close>

datatype blob = Unreadable error | Children "(Descriptor \<times> blob) list"

text \<open>
  What an \<open>Engine\<close> value stands for, with the process-wide logger: the stored top-level
  index, the blobs by digest, the fault (if any) of the n-th access to the stored index,
  the accesses made so far, and the lines logged so far.
\<close>

record Engine =
  stored :: Index
  blobs :: "string \<Rightarrow> blob"
  io_fault :: "nat \<Rightarrow> error option"
  calls :: "store_call list"
  logged :: "(level \<times> string) list"

definition log_Warn :: "string \<Rightarrow> Engine \<Rightarrow> Engine" where
  "log_Warn msg e = e\<lparr>logged := logged e @ [(WarnLevel, msg)]\<rparr>"

definition log_Debugf :: "string \<Rightarrow> Engine \<Rightarrow> Engine" where
  "log_Debugf msg e = e\<lparr>logged := logged e @ [(DebugLevel, msg)]\<rparr>"

subsection \<open>The collaborators: index store and graph walk\<close>

text \<open>
  Modelled from the spec: \<open>Engine.GetIndex\<close> is not among the sources. It returns the
  current top-level index snapshot, or fails with a fetch error.
\<close>

definition GetIndex :: "Engine \<Rightarrow> (error + Index) \<times> Engine" where
  "GetIndex e =
     (case io_fault e (length (calls e)) of
        Some err \<Rightarrow> (Inl err, e\<lparr>calls := calls e @ [CallGetIndex]\<rparr>)
      | None \<Rightarrow> (Inr (stored e), e\<lparr>calls := calls e @ [CallGetIndex]\<rparr>))"

text \<open>
  Modelled from the spec: \<open>Engine.PutIndex\<close> is not among the sources. It atomically
  replaces the stored top-level index with the given one, or fails with a write error
  (and then stores nothing).
\<close>

definition PutIndex :: "Engine \<Rightarrow> Index \<Rightarrow> error option \<times> Engine" where
  "PutIndex e index =
     (case io_fault e (length (calls e)) of
        Some err \<Rightarrow> (Some err, e\<lparr>calls := calls e @ [CallPutIndex index]\<rparr>)
      | None \<Rightarrow> (None, e\<lparr>stored := index, calls := calls e @ [CallPutIndex index]\<rparr>))"

text \<open>
  Modelled from the spec: the graph walk behind \<open>Engine.Walk\<close> is not among the sources.
  The walk function is called at each visited descriptor, the root first. When it returns no error the walker
  recurses into the children of the descriptor; when it returns the sentinel the walker
  does not descend past the descriptor and goes on with the siblings; any other error
  aborts the whole walk and is returned. A blob that cannot be read fails the walk. The
  walk function is a closure over variables of its caller: it takes their value and
  returns the new one.
\<close>

type_synonym 's WalkFunc = "Descriptor \<Rightarrow> 's \<Rightarrow> error option \<times> 's"

fun recurse :: "'s WalkFunc \<Rightarrow> Descriptor \<Rightarrow> blob \<Rightarrow> 's \<Rightarrow> error option \<times> 's"
  and recurse_children :: "'s WalkFunc \<Rightarrow> (Descriptor \<times> blob) list \<Rightarrow> 's \<Rightarrow> error option \<times> 's"
  where
  "recurse walkFunc descriptor (Unreadable ferr) s =
     (case walkFunc descriptor s of
        (Some err, s') \<Rightarrow> if err = ErrSkipDescriptor then (None, s') else (Some err, s')
      | (None, s') \<Rightarrow> (Some ferr, s'))"
| "recurse walkFunc descriptor (Children cs) s =
     (case walkFunc descriptor s of
        (Some err, s') \<Rightarrow> if err = ErrSkipDescriptor then (None, s') else (Some err, s')
      | (None, s') \<Rightarrow> recurse_children walkFunc cs s')"
| "recurse_children walkFunc [] s = (None, s)"
| "recurse_children walkFunc ((child, b) # cs) s =
     (case recurse walkFunc child b s of
        (Some err, s') \<Rightarrow> (Some err, s')
      | (None, s') \<Rightarrow> recurse_children walkFunc cs s')"

text \<open>
  Modelled from the spec: \<open>Engine.Walk\<close> starts at the root, with the blob that the store
  holds under the digest of the root. It reads blobs only.
\<close>

definition Walk :: "Engine \<Rightarrow> Descriptor \<Rightarrow> 's WalkFunc \<Rightarrow> 's \<Rightarrow> error option \<times> 's" where
  "Walk e root walkFunc s = recurse walkFunc root (blobs e (Digest root)) s"

subsection \<open>The operations of refname.go\<close>

definition isKnownMediaType :: "string \<Rightarrow> bool" where
  "isKnownMediaType mediaType \<longleftrightarrow>
     mediaType = MediaTypeDescriptor \<or>
     mediaType = MediaTypeImageManifest \<or>
     mediaType = MediaTypeImageIndex \<or>
     mediaType = MediaTypeImageLayer \<or>
     mediaType = MediaTypeImageLayerGzip \<or>
     mediaType = MediaTypeImageLayerNonDistributable \<or>
     mediaType = MediaTypeImageLayerNonDistributableGzip \<or>
     mediaType = MediaTypeImageConfig"

text \<open>
  The function literal passed to \<open>Walk\<close> in \<open>ResolveReference\<close>; its state is the
  captured slice \<open>resolutions\<close>.
\<close>

definition resolveWalkFunc :: "Descriptor list WalkFunc" where
  "resolveWalkFunc descriptor resolutions =
     (if isKnownMediaType (MediaType descriptor) \<and> MediaType descriptor \<noteq> MediaTypeImageManifest
      then (None, resolutions)
      else (Some ErrSkipDescriptor, resolutions @ [descriptor]))"

text \<open>The first loop of \<open>ResolveReference\<close>: the top-level entries that match.\<close>

definition matchingRoots :: "string \<Rightarrow> Index \<Rightarrow> Descriptor list" where
  "matchingRoots refname index =
     foldl (\<lambda>roots descriptor.
              if map_index (Annotations descriptor) AnnotationRefName = refname
              then roots @ [descriptor] else roots)
           [] (Manifests index)"

text \<open>
  The second loop: one walk per root, in order; the first walk that fails ends the call
  with \<open>nil\<close> and the wrapped error.
\<close>

fun walkRoots :: "Engine \<Rightarrow> Descriptor list \<Rightarrow> Descriptor list \<Rightarrow> Descriptor list \<times> error option"
  where
  "walkRoots e [] resolutions = (resolutions, None)"
| "walkRoots e (root # roots) resolutions =
     (case Walk e root resolveWalkFunc resolutions of
        (Some err, resolutions') \<Rightarrow> ([], Some (Wrap err (''walk '' @ Digest root)))
      | (None, resolutions') \<Rightarrow> walkRoots e roots resolutions')"

definition ResolveReference :: "Engine \<Rightarrow> string \<Rightarrow> (Descriptor list \<times> error option) \<times> Engine"
  where
  "ResolveReference e refname =
     (case GetIndex e of
        (Inl err, e1) \<Rightarrow> (([], Some (Wrap err ''get top-level index'')), e1)
      | (Inr index, e1) \<Rightarrow>
          (case walkRoots e1 (matchingRoots refname index) [] of
             (resolutions, Some err) \<Rightarrow> ((resolutions, Some err), e1)
           | (resolutions, None) \<Rightarrow>
               ((resolutions, None),
                log_Debugf (''casext.ResolveReference('' @ refname @ '') got these descriptors'') e1)))"

text \<open>
  Lines 121 to 124 and 158 to 161: a nil annotations map is replaced by an empty one, then
  the reference name is stored under the annotation key.
\<close>

definition setRefName :: "string \<Rightarrow> Descriptor \<Rightarrow> Descriptor" where
  "setRefName refname descriptor =
     descriptor\<lparr>Annotations :=
       Some ((case Annotations descriptor of None \<Rightarrow> Map.empty | Some f \<Rightarrow> f)
              (AnnotationRefName \<mapsto> refname))\<rparr>"

definition UpdateReference :: "Engine \<Rightarrow> string \<Rightarrow> Descriptor \<Rightarrow> error option \<times> Engine" where
  "UpdateReference e refname descriptor =
     (case GetIndex e of
        (Inl err, e1) \<Rightarrow> (Some (Wrap err ''get top-level index''), e1)
      | (Inr index, e1) \<Rightarrow>
          (let newIndex =
                 foldl (\<lambda>newIndex d.
                          if map_index (Annotations d) AnnotationRefName \<noteq> refname
                          then newIndex @ [d] else newIndex)
                       [] (Manifests index);
               e2 = (if int (length newIndex) - int (length (Manifests index)) > 1
                     then log_Warn ''multiple references match the given reference name -- all of them have been replaced due to this ambiguity'' e1
                     else e1);
               newIndex' = newIndex @ [setRefName refname descriptor]
           in case PutIndex e2 (index\<lparr>Manifests := newIndex'\<rparr>) of
                (Some err, e3) \<Rightarrow> (Some (Wrap err ''replace index''), e3)
              | (None, e3) \<Rightarrow> (None, e3)))"

definition AddReferences :: "Engine \<Rightarrow> string \<Rightarrow> Descriptor list \<Rightarrow> error option \<times> Engine" where
  "AddReferences e refname descriptors =
     (if length descriptors = 0 then (None, e)
      else
        (case GetIndex e of
           (Inl err, e1) \<Rightarrow> (Some (Wrap err ''get top-level index''), e1)
         | (Inr index, e1) \<Rightarrow>
             (let e2 = (if length descriptors > 1
                        then log_Warn ''umoci has been requested to add multiple descriptors with the same reference name -- this is intentionally creating ambiguity in the OCI image that some tools may be unable to resolve'' e1
                        else e1);
                  convertedDescriptors =
                    foldl (\<lambda>converted d. converted @ [setRefName refname d]) [] descriptors
              in case PutIndex e2 (index\<lparr>Manifests := Manifests index @ convertedDescriptors\<rparr>) of
                   (Some err, e3) \<Rightarrow> (Some (Wrap err ''replace index''), e3)
                 | (None, e3) \<Rightarrow> (None, e3))))"

definition DeleteReference :: "Engine \<Rightarrow> string \<Rightarrow> error option \<times> Engine" where
  "DeleteReference e refname =
     (case GetIndex e of
        (Inl err, e1) \<Rightarrow> (Some (Wrap err ''get top-level index''), e1)
      | (Inr index, e1) \<Rightarrow>
          (let newIndex =
                 foldl (\<lambda>newIndex d.
                          if map_index (Annotations d) AnnotationRefName \<noteq> refname
                          then newIndex @ [d] else newIndex)
                       [] (Manifests index);
               e2 = (if int (length newIndex) - int (length (Manifests index)) > 1
                     then log_Warn ''multiple references match the given reference name -- all of them have been deleted due to this ambiguity'' e1
                     else e1)
           in case PutIndex e2 (index\<lparr>Manifests := newIndex\<rparr>) of
                (Some err, e3) \<Rightarrow> (Some (Wrap err ''replace index''), e3)
              | (None, e3) \<Rightarrow> (None, e3)))"

definition ListReferences :: "Engine \<Rightarrow> (string list \<times> error option) \<times> Engine" where
  "ListReferences e =
     (case GetIndex e of
        (Inl err, e1) \<Rightarrow> (([], Some (Wrap err ''get top-level index'')), e1)
      | (Inr index, e1) \<Rightarrow>
          ((foldl (\<lambda>refs d.
                     (case map_index_ok (Annotations d) AnnotationRefName of
                        (ref, ok) \<Rightarrow> if ok then refs @ [ref] else refs))
                  [] (Manifests index),
            None), e1))"

subsection \<open>Example values\<close>

text \<open>
  An index with two entries named \<open>a\<close> and one entry without annotations; an index whose
  second entry named \<open>a\<close> is an image index with an unreadable blob; an index with an
  image index and a descriptor of a custom media type, where every blob has one child, an
  image manifest; a store whose every access fails.
\<close>

definition exManifestA :: Descriptor where
  "exManifestA = \<lparr>MediaType = MediaTypeImageManifest, Digest = ''sha256:aa'', Size = 7,
     URLs = [], Annotations = Some [AnnotationRefName \<mapsto> ''a'']\<rparr>"

definition exManifestA2 :: Descriptor where
  "exManifestA2 = \<lparr>MediaType = MediaTypeImageManifest, Digest = ''sha256:bb'', Size = 9,
     URLs = [], Annotations = Some [AnnotationRefName \<mapsto> ''a'']\<rparr>"

definition exUntagged :: Descriptor where
  "exUntagged = \<lparr>MediaType = MediaTypeImageManifest, Digest = ''sha256:cc'', Size = 3,
     URLs = [], Annotations = None\<rparr>"

definition exIndexB :: Descriptor where
  "exIndexB = \<lparr>MediaType = MediaTypeImageIndex, Digest = ''sha256:dd'', Size = 5,
     URLs = [], Annotations = Some [AnnotationRefName \<mapsto> ''b'']\<rparr>"

definition exIndexA :: Descriptor where
  "exIndexA = \<lparr>MediaType = MediaTypeImageIndex, Digest = ''sha256:ee'', Size = 5,
     URLs = [], Annotations = Some [AnnotationRefName \<mapsto> ''a'']\<rparr>"

definition exBroken :: Engine where
  "exBroken = \<lparr>stored = \<lparr>SchemaVersion = 2,
                  Manifests = [exManifestA, exIndexA],
                  IndexAnnotations = None\<rparr>,
     blobs = (\<lambda>_. Unreadable (Failure ''no such blob'')),
     io_fault = (\<lambda>_. None), calls = [], logged = []\<rparr>"

definition exEngine :: Engine where
  "exEngine = \<lparr>stored = \<lparr>SchemaVersion = 2,
                  Manifests = [exManifestA, exUntagged, exManifestA2],
                  IndexAnnotations = None\<rparr>,
     blobs = (\<lambda>_. Unreadable (Failure ''no such blob'')),
     io_fault = (\<lambda>_. None), calls = [], logged = []\<rparr>"

definition exCustom :: Descriptor where
  "exCustom = \<lparr>MediaType = ''application/x-custom'', Digest = ''sha256:ff'', Size = 11,
     URLs = [], Annotations = Some [AnnotationRefName \<mapsto> ''v2'']\<rparr>"

definition exNested :: Engine where
  "exNested = \<lparr>stored = \<lparr>SchemaVersion = 2,
                  Manifests = [exIndexB, exCustom],
                  IndexAnnotations = None\<rparr>,
     blobs = (\<lambda>_. Children [(exManifestA, Children [])]),
     io_fault = (\<lambda>_. None), calls = [], logged = []\<rparr>"


section \<open>Properties\<close>

subsection \<open>The loops and the operations in closed form\<close>

lemma foldl_append_if:
  "foldl (\<lambda>acc d. if P d then acc @ [d] else acc) acc xs = acc @ filter P xs"
  by (induction xs arbitrary: acc) simp_all

lemma foldl_append_map:
  "foldl (\<lambda>acc d. acc @ [f d]) acc xs = acc @ map f xs"
  by (induction xs arbitrary: acc) simp_all

lemma length_diff_not_gt1:
  "\<not> int (length (filter P xs)) - int (length xs) > 1"
proof -
  have "length (filter P xs) \<le> length xs" by (rule length_filter_le)
  then show ?thesis by linarith
qed

lemma DeleteReference_eq:
  "DeleteReference e refname =
     (case io_fault e (length (calls e)) of
        Some err \<Rightarrow> (Some (Wrap err ''get top-level index''), e\<lparr>calls := calls e @ [CallGetIndex]\<rparr>)
      | None \<Rightarrow>
         (let ix = (stored e)\<lparr>Manifests :=
                      filter (\<lambda>d. map_index (Annotations d) AnnotationRefName \<noteq> refname)
                             (Manifests (stored e))\<rparr>
          in case io_fault e (Suc (length (calls e))) of
               Some err \<Rightarrow> (Some (Wrap err ''replace index''),
                            e\<lparr>calls := calls e @ [CallGetIndex, CallPutIndex ix]\<rparr>)
             | None \<Rightarrow> (None, e\<lparr>stored := ix, calls := calls e @ [CallGetIndex, CallPutIndex ix]\<rparr>)))"
  by (simp add: DeleteReference_def GetIndex_def PutIndex_def foldl_append_if
      length_diff_not_gt1 Let_def split: option.splits)

lemma UpdateReference_eq:
  "UpdateReference e refname descriptor =
     (case io_fault e (length (calls e)) of
        Some err \<Rightarrow> (Some (Wrap err ''get top-level index''), e\<lparr>calls := calls e @ [CallGetIndex]\<rparr>)
      | None \<Rightarrow>
         (let ix = (stored e)\<lparr>Manifests :=
                      filter (\<lambda>d. map_index (Annotations d) AnnotationRefName \<noteq> refname)
                             (Manifests (stored e)) @ [setRefName refname descriptor]\<rparr>
          in case io_fault e (Suc (length (calls e))) of
               Some err \<Rightarrow> (Some (Wrap err ''replace index''),
                            e\<lparr>calls := calls e @ [CallGetIndex, CallPutIndex ix]\<rparr>)
             | None \<Rightarrow> (None, e\<lparr>stored := ix, calls := calls e @ [CallGetIndex, CallPutIndex ix]\<rparr>)))"
  by (simp add: UpdateReference_def GetIndex_def PutIndex_def foldl_append_if
      length_diff_not_gt1 Let_def split: option.splits)

lemma AddReferences_eq:
  "AddReferences e refname descriptors =
     (if descriptors = [] then (None, e) else
      case io_fault e (length (calls e)) of
        Some err \<Rightarrow> (Some (Wrap err ''get top-level index''), e\<lparr>calls := calls e @ [CallGetIndex]\<rparr>)
      | None \<Rightarrow>
         (let ix = (stored e)\<lparr>Manifests := Manifests (stored e) @ map (setRefName refname) descriptors\<rparr>;
              lg = logged e @ (if length descriptors > 1 then [(WarnLevel, ''umoci has been requested to add multiple descriptors with the same reference name -- this is intentionally creating ambiguity in the OCI image that some tools may be unable to resolve'')] else [])
          in case io_fault e (Suc (length (calls e))) of
               Some err \<Rightarrow> (Some (Wrap err ''replace index''),
                            e\<lparr>calls := calls e @ [CallGetIndex, CallPutIndex ix], logged := lg\<rparr>)
             | None \<Rightarrow> (None, e\<lparr>stored := ix, calls := calls e @ [CallGetIndex, CallPutIndex ix], logged := lg\<rparr>)))"
  by (simp add: AddReferences_def GetIndex_def PutIndex_def foldl_append_map log_Warn_def
      Let_def split: option.splits)

lemma recurse_extends:
  "recurse f d b acc = (err, acc') \<Longrightarrow>
   (\<forall>d s r s'. f d s = (r, s') \<longrightarrow> (\<exists>xs. s' = s @ xs)) \<Longrightarrow> \<exists>xs. acc' = acc @ xs"
  "recurse_children f cs acc = (err, acc') \<Longrightarrow>
   (\<forall>d s r s'. f d s = (r, s') \<longrightarrow> (\<exists>xs. s' = s @ xs)) \<Longrightarrow> \<exists>xs. acc' = acc @ xs"
proof (induction f d b acc and f cs acc
    arbitrary: err acc' and err acc' rule: recurse_recurse_children.induct)
  case (1 walkFunc descriptor ferr s)
  obtain r s1 where v: "walkFunc descriptor s = (r, s1)" by force
  with "1.prems"(2) obtain xs where "s1 = s @ xs" by blast
  with v "1.prems"(1) show ?case by (auto split: option.splits if_splits)
next
  case (2 walkFunc descriptor cs s)
  obtain r s1 where v: "walkFunc descriptor s = (r, s1)" by force
  with "2.prems"(2) obtain xs where s1: "s1 = s @ xs" by blast
  show ?case
  proof (cases r)
    case None
    with v "2.prems"(1) have "recurse_children walkFunc cs s1 = (err, acc')" by simp
    from "2.IH"[OF v[symmetric] None this "2.prems"(2)] s1 show ?thesis by auto
  next
    case (Some a)
    with v "2.prems"(1) s1 show ?thesis by (auto split: if_splits)
  qed
next
  case (3 walkFunc s)
  then show ?case by simp
next
  case (4 walkFunc child b cs s)
  obtain r s1 where v: "recurse walkFunc child b s = (r, s1)" by force
  from "4.IH"(1)[OF v "4.prems"(2)] obtain xs where s1: "s1 = s @ xs" by blast
  show ?case
  proof (cases r)
    case None
    with v "4.prems"(1) have "recurse_children walkFunc cs s1 = (err, acc')" by simp
    from "4.IH"(2)[OF v[symmetric] None this "4.prems"(2)] s1 show ?thesis by auto
  next
    case (Some a)
    with v "4.prems"(1) s1 show ?thesis by auto
  qed
qed

lemma resolveWalkFunc_extends:
  "resolveWalkFunc d s = (r, s') \<Longrightarrow> \<exists>xs. s' = s @ xs"
  by (auto simp: resolveWalkFunc_def split: if_splits)

lemma Walk_extends:
  "Walk e root resolveWalkFunc acc = (err, acc') \<Longrightarrow> \<exists>xs. acc' = acc @ xs"
  unfolding Walk_def using recurse_extends(1)[of resolveWalkFunc] resolveWalkFunc_extends by blast

lemma resolveWalkFunc_prune:
  "\<not> (isKnownMediaType (MediaType d) \<and> MediaType d \<noteq> MediaTypeImageManifest) \<Longrightarrow>
   resolveWalkFunc d acc = (Some ErrSkipDescriptor, acc @ [d])"
  by (auto simp: resolveWalkFunc_def)

lemma Walk_prune_root:
  "\<not> (isKnownMediaType (MediaType d) \<and> MediaType d \<noteq> MediaTypeImageManifest) \<Longrightarrow>
   Walk e d resolveWalkFunc acc = (None, acc @ [d])"
  unfolding Walk_def
  by (cases "blobs e (Digest d)") (simp_all add: resolveWalkFunc_prune del: de_Morgan_conj)

lemma walkRoots_blobs:
  "blobs e' = blobs e \<Longrightarrow> walkRoots e' roots acc = walkRoots e roots acc"
  by (induction roots arbitrary: acc) (simp_all add: Walk_def split: prod.splits option.splits)

lemma walkRoots_extends:
  "walkRoots e roots acc = (ds, None) \<Longrightarrow> \<exists>xs. ds = acc @ xs"
proof (induction roots arbitrary: acc)
  case Nil
  then show ?case by simp
next
  case (Cons root roots)
  obtain r acc1 where w: "Walk e root resolveWalkFunc acc = (r, acc1)" by force
  with Cons.prems have r: "r = None" by (cases r) auto
  from Walk_extends[OF w] obtain xs where "acc1 = acc @ xs" by blast
  moreover from Cons.prems w r have "walkRoots e roots acc1 = (ds, None)" by simp
  from Cons.IH[OF this] obtain ys where "ds = acc1 @ ys" by blast
  ultimately show ?case by simp
qed

lemma walkRoots_records:
  "walkRoots e roots acc = (ds, None) \<Longrightarrow> d \<in> set roots \<Longrightarrow>
   \<not> (isKnownMediaType (MediaType d) \<and> MediaType d \<noteq> MediaTypeImageManifest) \<Longrightarrow>
   d \<in> set ds"
proof (induction roots arbitrary: acc)
  case Nil
  then show ?case by simp
next
  case (Cons root roots)
  obtain r acc1 where w: "Walk e root resolveWalkFunc acc = (r, acc1)" by force
  with Cons.prems(1) have r: "r = None" by (cases r) auto
  with Cons.prems(1) w have rest: "walkRoots e roots acc1 = (ds, None)" by simp
  show ?case
  proof (cases "d = root")
    case True
    with Walk_prune_root[OF Cons.prems(3), of e acc] w have "acc1 = acc @ [d]" by simp
    moreover from walkRoots_extends[OF rest] obtain ys where "ds = acc1 @ ys" by blast
    ultimately show ?thesis by simp
  next
    case False
    with Cons.prems(2) have "d \<in> set roots" by simp
    from Cons.IH[OF rest this Cons.prems(3)] show ?thesis .
  qed
qed

lemma matchingRoots_filter:
  "matchingRoots refname index =
     filter (\<lambda>d. map_index (Annotations d) AnnotationRefName = refname) (Manifests index)"
  by (simp add: matchingRoots_def foldl_append_if)

lemma ResolveReference_eq:
  "ResolveReference e refname =
     (case io_fault e (length (calls e)) of
        Some err \<Rightarrow> (([], Some (Wrap err ''get top-level index'')), e\<lparr>calls := calls e @ [CallGetIndex]\<rparr>)
      | None \<Rightarrow>
          (case walkRoots e (matchingRoots refname (stored e)) [] of
             (resolutions, Some err) \<Rightarrow> ((resolutions, Some err), e\<lparr>calls := calls e @ [CallGetIndex]\<rparr>)
           | (resolutions, None) \<Rightarrow>
               ((resolutions, None),
                log_Debugf (''casext.ResolveReference('' @ refname @ '') got these descriptors'')
                  (e\<lparr>calls := calls e @ [CallGetIndex]\<rparr>))))"
  by (simp add: ResolveReference_def GetIndex_def
      walkRoots_blobs[of "e\<lparr>calls := calls e @ [CallGetIndex]\<rparr>" e]
      split: option.splits prod.splits)

lemma map_index_setRefName:
  "map_index (Annotations (setRefName refname d)) AnnotationRefName = refname"
  by (simp add: map_index_def setRefName_def)

lemma resolveWalkFunc_shift:
  "\<exists>r xs. \<forall>acc. resolveWalkFunc d acc = (r, acc @ xs)"
proof (cases "isKnownMediaType (MediaType d) \<and> MediaType d \<noteq> MediaTypeImageManifest")
  case True
  then have "\<forall>acc. resolveWalkFunc d acc = (None, acc @ [])"
    by (simp add: resolveWalkFunc_def)
  then show ?thesis by blast
next
  case False
  then have "\<forall>acc. resolveWalkFunc d acc = (Some ErrSkipDescriptor, acc @ [d])"
    by (simp add: resolveWalkFunc_prune)
  then show ?thesis by blast
qed

lemma recurse_children_shift:
  assumes "\<And>c b. (c, b) \<in> set cs \<Longrightarrow>
             \<exists>r xs. \<forall>acc. recurse resolveWalkFunc c b acc = (r, acc @ xs)"
  shows "\<exists>r xs. \<forall>acc. recurse_children resolveWalkFunc cs acc = (r, acc @ xs)"
  using assms
proof (induction cs)
  case Nil
  then show ?case by simp
next
  case (Cons p cs)
  obtain c b where p: "p = (c, b)" by (cases p)
  from Cons.prems[of c b] p obtain r xs
    where here: "\<forall>acc. recurse resolveWalkFunc c b acc = (r, acc @ xs)" by auto
  have "\<exists>r xs. \<forall>acc. recurse_children resolveWalkFunc cs acc = (r, acc @ xs)"
    by (rule Cons.IH) (simp add: Cons.prems)
  then obtain r' ys
    where rest: "\<forall>acc. recurse_children resolveWalkFunc cs acc = (r', acc @ ys)" by blast
  show ?case
  proof (cases r)
    case None
    with p here rest
    have "\<forall>acc. recurse_children resolveWalkFunc (p # cs) acc = (r', acc @ (xs @ ys))"
      by simp
    then show ?thesis by blast
  next
    case (Some a)
    with p here
    have "\<forall>acc. recurse_children resolveWalkFunc (p # cs) acc = (Some a, acc @ xs)"
      by simp
    then show ?thesis by blast
  qed
qed

lemma recurse_shift:
  "\<exists>r xs. \<forall>acc. recurse resolveWalkFunc d b acc = (r, acc @ xs)"
proof (induction b arbitrary: d)
  case (Unreadable ferr)
  from resolveWalkFunc_shift[of d] obtain r xs
    where v: "\<forall>acc. resolveWalkFunc d acc = (r, acc @ xs)" by blast
  show ?case
  proof (cases r)
    case None
    with v have "\<forall>acc. recurse resolveWalkFunc d (Unreadable ferr) acc = (Some ferr, acc @ xs)"
      by simp
    then show ?thesis by blast
  next
    case (Some a)
    with v have "\<forall>acc. recurse resolveWalkFunc d (Unreadable ferr) acc =
                   ((if a = ErrSkipDescriptor then None else Some a), acc @ xs)"
      by simp
    then show ?thesis by blast
  qed
next
  case (Children cs)
  have "\<exists>r xs. \<forall>acc. recurse_children resolveWalkFunc cs acc = (r, acc @ xs)"
  proof (rule recurse_children_shift)
    fix c b assume "(c, b) \<in> set cs"
    then show "\<exists>r xs. \<forall>acc. recurse resolveWalkFunc c b acc = (r, acc @ xs)"
      by (intro Children.IH[of "(c, b)" b]) auto
  qed
  then obtain r' ys
    where kids: "\<forall>acc. recurse_children resolveWalkFunc cs acc = (r', acc @ ys)" by blast
  from resolveWalkFunc_shift[of d] obtain r xs
    where v: "\<forall>acc. resolveWalkFunc d acc = (r, acc @ xs)" by blast
  show ?case
  proof (cases r)
    case None
    with v kids
    have "\<forall>acc. recurse resolveWalkFunc d (Children cs) acc = (r', acc @ (xs @ ys))"
      by simp
    then show ?thesis by blast
  next
    case (Some a)
    with v have "\<forall>acc. recurse resolveWalkFunc d (Children cs) acc =
                   ((if a = ErrSkipDescriptor then None else Some a), acc @ xs)"
      by simp
    then show ?thesis by blast
  qed
qed

lemma Walk_shift:
  "\<exists>r xs. \<forall>acc. Walk e root resolveWalkFunc acc = (r, acc @ xs)"
  unfolding Walk_def by (rule recurse_shift)

lemma Walk_result_any_acc:
  "fst (Walk e root resolveWalkFunc []) = r \<Longrightarrow>
   \<exists>xs. Walk e root resolveWalkFunc acc = (r, acc @ xs)"
proof -
  assume a: "fst (Walk e root resolveWalkFunc []) = r"
  from Walk_shift[of e root] obtain r' xs
    where w: "\<forall>acc. Walk e root resolveWalkFunc acc = (r', acc @ xs)" by blast
  with a have "r' = r" by simp
  with w show ?thesis by blast
qed



lemma walkRoots_all_ok:
  "\<forall>root \<in> set roots. fst (Walk e root resolveWalkFunc []) = None \<Longrightarrow>
   \<exists>ds. walkRoots e roots acc = (ds, None)"
proof (induction roots arbitrary: acc)
  case Nil
  then show ?case by simp
next
  case (Cons p roots)
  from Cons.prems have "fst (Walk e p resolveWalkFunc []) = None" by simp
  from Walk_result_any_acc[OF this, of acc] obtain xs
    where w: "Walk e p resolveWalkFunc acc = (None, acc @ xs)" by blast
  from Cons.prems have "\<exists>ds. walkRoots e roots (acc @ xs) = (ds, None)"
    by (intro Cons.IH) simp
  with w show ?case by simp
qed

lemma no_ambiguity_warning:
  "logged (snd (DeleteReference e refname)) = logged e"
  "logged (snd (UpdateReference e refname D)) = logged e"
  by (simp_all add: DeleteReference_eq UpdateReference_eq Let_def split: option.splits)

lemmas ex_defs = exEngine_def exBroken_def exManifestA_def exManifestA2_def exUntagged_def
  exIndexB_def exIndexA_def

subsection \<open>The claims\<close>

text \<open>
  C1. When more than one top-level entry carries the reference name, \<open>UpdateReference\<close>
  and \<open>DeleteReference\<close> are to warn that an ambiguous state was affected, and still
  succeed. The test of the code is \<open>len(newIndex) - len(index.Manifests) > 1\<close>, a
  difference that is never positive: on the index with two entries named \<open>a\<close> both
  operations succeed and remove both entries, and nothing is logged.
\<close>

theorem ambiguity_warning_not_emitted:
  "fst (DeleteReference exEngine ''a'') = None \<and>
   map Digest (Manifests (stored (snd (DeleteReference exEngine ''a'')))) = [''sha256:cc''] \<and>
   logged (snd (DeleteReference exEngine ''a'')) = [] \<and>
   fst (UpdateReference exEngine ''a'' exUntagged) = None \<and>
   map Digest (Manifests (stored (snd (UpdateReference exEngine ''a'' exUntagged)))) = [''sha256:cc'', ''sha256:cc''] \<and>
   logged (snd (UpdateReference exEngine ''a'' exUntagged)) = []"
  by (simp add: DeleteReference_def UpdateReference_def GetIndex_def PutIndex_def exEngine_def
      exManifestA_def exManifestA2_def exUntagged_def map_index_def setRefName_def Let_def)

text \<open>
  C2. The known media types are exactly the eight of the image specification: descriptor,
  image manifest, image index, the four layer types and image config. At every
  descriptor the walk visits, a root included: when the media type is one of the eight
  and is not the image manifest, the walk function returns no error (continue) and
  records nothing; otherwise (an image manifest, or a media type that is none of the
  eight) it appends the descriptor to the resolutions and returns the sentinel, so that a
  walk from such a descriptor ends there, whatever lies below it.
\<close>

theorem resolveWalkFunc_policy:
  "(isKnownMediaType mediaType \<longleftrightarrow>
      mediaType \<in> {MediaTypeDescriptor, MediaTypeImageManifest, MediaTypeImageIndex,
                    MediaTypeImageLayer, MediaTypeImageLayerGzip,
                    MediaTypeImageLayerNonDistributable,
                    MediaTypeImageLayerNonDistributableGzip, MediaTypeImageConfig}) \<and>
   (MediaType d \<in> {MediaTypeDescriptor, MediaTypeImageManifest, MediaTypeImageIndex,
                    MediaTypeImageLayer, MediaTypeImageLayerGzip,
                    MediaTypeImageLayerNonDistributable,
                    MediaTypeImageLayerNonDistributableGzip, MediaTypeImageConfig} \<and>
    MediaType d \<noteq> MediaTypeImageManifest \<longrightarrow>
      resolveWalkFunc d resolutions = (None, resolutions)) \<and>
   (MediaType d = MediaTypeImageManifest \<or>
    MediaType d \<notin> {MediaTypeDescriptor, MediaTypeImageManifest, MediaTypeImageIndex,
                    MediaTypeImageLayer, MediaTypeImageLayerGzip,
                    MediaTypeImageLayerNonDistributable,
                    MediaTypeImageLayerNonDistributableGzip, MediaTypeImageConfig} \<longrightarrow>
      resolveWalkFunc d resolutions = (Some ErrSkipDescriptor, resolutions @ [d]) \<and>
      Walk e d resolveWalkFunc resolutions = (None, resolutions @ [d]))"
proof -
  have known: "isKnownMediaType mt \<longleftrightarrow>
      mt \<in> {MediaTypeDescriptor, MediaTypeImageManifest, MediaTypeImageIndex,
             MediaTypeImageLayer, MediaTypeImageLayerGzip,
             MediaTypeImageLayerNonDistributable,
             MediaTypeImageLayerNonDistributableGzip, MediaTypeImageConfig}" for mt
    unfolding isKnownMediaType_def by blast
  have continue: "resolveWalkFunc d resolutions = (None, resolutions)"
    if "isKnownMediaType (MediaType d) \<and> MediaType d \<noteq> MediaTypeImageManifest"
    using that by (simp add: resolveWalkFunc_def)
  have prune: "resolveWalkFunc d resolutions = (Some ErrSkipDescriptor, resolutions @ [d]) \<and>
               Walk e d resolveWalkFunc resolutions = (None, resolutions @ [d])"
    if "MediaType d = MediaTypeImageManifest \<or> \<not> isKnownMediaType (MediaType d)"
  proof -
    from that
    have n: "\<not> (isKnownMediaType (MediaType d) \<and> MediaType d \<noteq> MediaTypeImageManifest)"
      by blast
    from resolveWalkFunc_prune[OF n] Walk_prune_root[OF n] show ?thesis by blast
  qed
  from continue prune show ?thesis unfolding known[symmetric] by blast
qed

theorem resolveWalkFunc_policy_witness:
  "MediaType exIndexB = MediaTypeImageIndex \<and>
   MediaType exIndexB \<noteq> MediaTypeImageManifest \<and>
   resolveWalkFunc exIndexB [exUntagged] = (None, [exUntagged]) \<and>
   MediaType exManifestA = MediaTypeImageManifest \<and>
   resolveWalkFunc exManifestA [exUntagged] = (Some ErrSkipDescriptor, [exUntagged, exManifestA]) \<and>
   Walk exNested exManifestA resolveWalkFunc [exUntagged] = (None, [exUntagged, exManifestA]) \<and>
   MediaType exCustom = ''application/x-custom'' \<and>
   MediaType exCustom \<notin> {MediaTypeDescriptor, MediaTypeImageManifest, MediaTypeImageIndex,
                            MediaTypeImageLayer, MediaTypeImageLayerGzip,
                            MediaTypeImageLayerNonDistributable,
                            MediaTypeImageLayerNonDistributableGzip, MediaTypeImageConfig} \<and>
   isKnownMediaType ''application/x-custom'' = False \<and>
   resolveWalkFunc exCustom [exUntagged] = (Some ErrSkipDescriptor, [exUntagged, exCustom]) \<and>
   Walk exNested exCustom resolveWalkFunc [exUntagged] = (None, [exUntagged, exCustom]) \<and>
   blobs exNested (Digest exCustom) = Children [(exManifestA, Children [])]"
proof -
  have i: "MediaType exIndexB = MediaTypeImageIndex" by (simp add: exIndexB_def)
  have n: "MediaTypeImageIndex \<noteq> MediaTypeImageManifest"
    by (simp add: MediaTypeImageIndex_def MediaTypeImageManifest_def)
  have m: "MediaType exManifestA = MediaTypeImageManifest"
    by (simp add: exManifestA_def)
  have c: "MediaType exCustom = ''application/x-custom''" by (simp add: exCustom_def)
  have u: "''application/x-custom'' \<notin>
             {MediaTypeDescriptor, MediaTypeImageManifest, MediaTypeImageIndex,
              MediaTypeImageLayer, MediaTypeImageLayerGzip,
              MediaTypeImageLayerNonDistributable,
              MediaTypeImageLayerNonDistributableGzip, MediaTypeImageConfig}"
    by (simp add: MediaTypeDescriptor_def MediaTypeImageManifest_def MediaTypeImageIndex_def
        MediaTypeImageLayer_def MediaTypeImageLayerGzip_def
        MediaTypeImageLayerNonDistributable_def MediaTypeImageLayerNonDistributableGzip_def
        MediaTypeImageConfig_def)
  have b: "blobs exNested (Digest exCustom) = Children [(exManifestA, Children [])]"
    by (simp add: exNested_def)
  from resolveWalkFunc_policy[of "''application/x-custom''" exIndexB "[exUntagged]" exNested]
    resolveWalkFunc_policy[of "''application/x-custom''" exManifestA "[exUntagged]" exNested]
    resolveWalkFunc_policy[of "''application/x-custom''" exCustom "[exUntagged]" exNested]
    i n m c u b
  show ?thesis by simp
qed

text \<open>
  C3. After a successful \<open>UpdateReference\<close> the committed index is the prior entries
  whose reference name is not \<open>refname\<close>, unchanged and in their order, followed by the
  given descriptor with its reference name set (its other fields as given); that last
  entry is the only one whose reference name is \<open>refname\<close>.
\<close>

theorem UpdateReference_replaces:
  assumes "UpdateReference e refname D = (None, e')"
  shows "Manifests (stored e') =
           filter (\<lambda>d. map_index (Annotations d) AnnotationRefName \<noteq> refname)
                  (Manifests (stored e)) @ [setRefName refname D]
         \<and> filter (\<lambda>d. map_index (Annotations d) AnnotationRefName = refname)
                  (Manifests (stored e')) = [setRefName refname D]
         \<and> last (Manifests (stored e')) = setRefName refname D
         \<and> MediaType (setRefName refname D) = MediaType D
         \<and> Digest (setRefName refname D) = Digest D
         \<and> Size (setRefName refname D) = Size D
         \<and> URLs (setRefName refname D) = URLs D"
proof -
  from assms have m: "Manifests (stored e') =
           filter (\<lambda>d. map_index (Annotations d) AnnotationRefName \<noteq> refname)
                  (Manifests (stored e)) @ [setRefName refname D]"
    by (auto simp: UpdateReference_eq Let_def split: option.splits)
  have "filter (\<lambda>d. map_index (Annotations d) AnnotationRefName = refname)
          (filter (\<lambda>d. map_index (Annotations d) AnnotationRefName \<noteq> refname)
             (Manifests (stored e))) = []"
    by (simp add: filter_empty_conv)
  with m have "filter (\<lambda>d. map_index (Annotations d) AnnotationRefName = refname)
                  (Manifests (stored e')) = [setRefName refname D]"
    by (simp add: map_index_setRefName)
  with m show ?thesis by (simp add: setRefName_def)
qed

theorem UpdateReference_replaces_witness:
  "UpdateReference exEngine ''a'' exUntagged =
     (None, snd (UpdateReference exEngine ''a'' exUntagged)) \<and>
   Manifests (stored (snd (UpdateReference exEngine ''a'' exUntagged))) =
     [exUntagged, setRefName ''a'' exUntagged]"
proof -
  have ok: "UpdateReference exEngine ''a'' exUntagged =
     (None, snd (UpdateReference exEngine ''a'' exUntagged))"
    by (simp add: UpdateReference_eq exEngine_def Let_def)
  have "filter (\<lambda>d. map_index (Annotations d) AnnotationRefName \<noteq> ''a'')
          (Manifests (stored exEngine)) = [exUntagged]"
    by (simp add: ex_defs map_index_def)
  with ok UpdateReference_replaces[OF ok] show ?thesis by simp
qed

text \<open>
  C4. \<open>AddReferences\<close> with no descriptor returns success and leaves everything as it
  was: the stored index, the record of the accesses to the store (neither \<open>GetIndex\<close> nor
  \<open>PutIndex\<close> is called) and the log.
\<close>

theorem AddReferences_nothing: "AddReferences e refname [] = (None, e)"
  by (simp add: AddReferences_def)

text \<open>
  C5. The descriptor that a successful \<open>UpdateReference\<close> appends to the committed index,
  and each of the descriptors that a successful \<open>AddReferences\<close> appends (one per
  descriptor given), has an annotations map that is not nil and maps the reference
  annotation key to \<open>refname\<close>, whatever the annotations of the descriptor given, nil
  included.
\<close>

theorem tagged_annotations_present:
  "(UpdateReference e refname D = (None, e') \<longrightarrow>
      (\<exists>m. Annotations (last (Manifests (stored e'))) = Some m \<and>
           m AnnotationRefName = Some refname)) \<and>
   (AddReferences e refname Ds = (None, e'') \<longrightarrow>
      length (Manifests (stored e'')) = length (Manifests (stored e)) + length Ds \<and>
      (\<forall>c \<in> set (drop (length (Manifests (stored e))) (Manifests (stored e''))).
         \<exists>m. Annotations c = Some m \<and> m AnnotationRefName = Some refname))"
proof (intro conjI impI)
  assume "UpdateReference e refname D = (None, e')"
  then have "last (Manifests (stored e')) = setRefName refname D"
    by (auto simp: UpdateReference_eq Let_def split: option.splits)
  then show "\<exists>m. Annotations (last (Manifests (stored e'))) = Some m \<and>
                 m AnnotationRefName = Some refname"
    by (simp add: setRefName_def)
next
  assume a: "AddReferences e refname Ds = (None, e'')"
  then have m: "Manifests (stored e'') = Manifests (stored e) @ map (setRefName refname) Ds"
    by (auto simp: AddReferences_eq Let_def split: option.splits if_splits)
  then show "length (Manifests (stored e'')) = length (Manifests (stored e)) + length Ds"
    by simp
  from m show "\<forall>c \<in> set (drop (length (Manifests (stored e))) (Manifests (stored e''))).
         \<exists>m. Annotations c = Some m \<and> m AnnotationRefName = Some refname"
    by (auto simp: setRefName_def)
qed

theorem tagged_annotations_present_witness:
  "UpdateReference exEngine ''v1'' exUntagged = (None, snd (UpdateReference exEngine ''v1'' exUntagged)) \<and>
   Annotations exUntagged = None \<and>
   (\<exists>m. Annotations (last (Manifests (stored (snd (UpdateReference exEngine ''v1'' exUntagged))))) = Some m \<and>
        m AnnotationRefName = Some ''v1'') \<and>
   AddReferences exEngine ''v1'' [exUntagged, exManifestA] =
     (None, snd (AddReferences exEngine ''v1'' [exUntagged, exManifestA])) \<and>
   length (Manifests (stored (snd (AddReferences exEngine ''v1'' [exUntagged, exManifestA])))) = 5 \<and>
   drop 3 (Manifests (stored (snd (AddReferences exEngine ''v1'' [exUntagged, exManifestA])))) =
     [setRefName ''v1'' exUntagged, setRefName ''v1'' exManifestA] \<and>
   (\<exists>m. Annotations (setRefName ''v1'' exUntagged) = Some m \<and>
        m AnnotationRefName = Some ''v1'') \<and>
   (\<exists>m. Annotations (setRefName ''v1'' exManifestA) = Some m \<and>
        m AnnotationRefName = Some ''v1'')"
proof -
  have u: "UpdateReference exEngine ''v1'' exUntagged =
             (None, snd (UpdateReference exEngine ''v1'' exUntagged))"
    by (simp add: UpdateReference_eq exEngine_def Let_def)
  have a: "AddReferences exEngine ''v1'' [exUntagged, exManifestA] =
             (None, snd (AddReferences exEngine ''v1'' [exUntagged, exManifestA]))"
    by (simp add: AddReferences_eq exEngine_def Let_def)
  have n: "Annotations exUntagged = None" by (simp add: exUntagged_def)
  have l: "length (Manifests (stored exEngine)) = 3" by (simp add: exEngine_def)
  have d: "drop 3 (Manifests (stored (snd (AddReferences exEngine ''v1'' [exUntagged, exManifestA])))) =
             [setRefName ''v1'' exUntagged, setRefName ''v1'' exManifestA]"
    by (simp add: AddReferences_eq exEngine_def Let_def)
  from tagged_annotations_present[of exEngine "''v1''" exUntagged
      "snd (UpdateReference exEngine ''v1'' exUntagged)" "[exUntagged, exManifestA]"
      "snd (AddReferences exEngine ''v1'' [exUntagged, exManifestA])"] u a n l d
  show ?thesis by simp
qed

text \<open>
  C6. When the index is fetched, \<open>ListReferences\<close> returns the value under the reference
  annotation key of every top-level entry that has the key, in the order of the index and
  with duplicates kept; no error. On the index with two entries named \<open>a\<close> (and one
  without annotations) the result is \<open>a, a\<close>.
\<close>

theorem ListReferences_in_order:
  assumes "fst (GetIndex e) = Inr index"
  shows "fst (ListReferences e) =
           (List.map_filter (\<lambda>d. Option.bind (Annotations d) (\<lambda>m. m AnnotationRefName))
              (Manifests index), None)"
proof -
  have loop: "foldl (\<lambda>refs d.
                     (case map_index_ok (Annotations d) AnnotationRefName of
                        (ref, ok) \<Rightarrow> if ok then refs @ [ref] else refs)) acc ds =
              acc @ List.map_filter (\<lambda>d. Option.bind (Annotations d) (\<lambda>m. m AnnotationRefName)) ds"
    for acc ds
    by (induction ds arbitrary: acc)
       (auto simp: map_index_ok_def split: option.splits)
  from assms show ?thesis
    by (auto simp: ListReferences_def GetIndex_def loop split: option.splits)
qed

theorem ListReferences_in_order_witness:
  "fst (GetIndex exEngine) = Inr (stored exEngine) \<and>
   map (\<lambda>d. map_index (Annotations d) AnnotationRefName) (Manifests (stored exEngine)) = [''a'', '''', ''a''] \<and>
   fst (ListReferences exEngine) = ([''a'', ''a''], None)"
proof -
  have g: "fst (GetIndex exEngine) = Inr (stored exEngine)"
    by (simp add: GetIndex_def exEngine_def)
  have "List.map_filter (\<lambda>d. Option.bind (Annotations d) (\<lambda>m. m AnnotationRefName))
          (Manifests (stored exEngine)) = [''a'', ''a'']"
    by (simp add: ex_defs)
  moreover have "map (\<lambda>d. map_index (Annotations d) AnnotationRefName) (Manifests (stored exEngine)) = [''a'', '''', ''a'']"
    by (simp add: ex_defs map_index_def)
  ultimately show ?thesis using g ListReferences_in_order[OF g] by simp
qed



text \<open>
  C8. After a successful \<open>AddReferences\<close> of an image manifest \<open>D\<close> under \<open>refname\<close>,
  whenever \<open>ResolveReference\<close> of \<open>refname\<close> on the resulting index returns without
  error, the result contains \<open>D\<close> with its reference name set, which has the digest and
  the media type of \<open>D\<close>. It does return without error when the index fetch does not fail
  and the walk of every entry that already carried \<open>refname\<close> does not fail.
\<close>

theorem AddReferences_then_ResolveReference:
  assumes add: "AddReferences e refname [D] = (None, e1)"
    and mt: "MediaType D = MediaTypeImageManifest"
  shows "(\<forall>resolutions. fst (ResolveReference e1 refname) = (resolutions, None) \<longrightarrow>
            setRefName refname D \<in> set resolutions) \<and>
         (io_fault e1 (length (calls e1)) = None \<and>
          (\<forall>root \<in> set (matchingRoots refname (stored e)).
             fst (Walk e root resolveWalkFunc []) = None) \<longrightarrow>
            (\<exists>resolutions. fst (ResolveReference e1 refname) = (resolutions, None))) \<and>
         Digest (setRefName refname D) = Digest D \<and>
         MediaType (setRefName refname D) = MediaType D"
proof -
  let ?D = "setRefName refname D"
  from add have m: "Manifests (stored e1) = Manifests (stored e) @ [?D]"
    and b: "blobs e1 = blobs e"
    by (auto simp: AddReferences_eq Let_def split: option.splits if_splits)
  then have roots: "matchingRoots refname (stored e1) = matchingRoots refname (stored e) @ [?D]"
    by (simp add: matchingRoots_filter map_index_setRefName)
  have mt': "\<not> (isKnownMediaType (MediaType ?D) \<and> MediaType ?D \<noteq> MediaTypeImageManifest)"
    using mt by (simp add: setRefName_def)
  have part: "?D \<in> set resolutions"
    if "fst (ResolveReference e1 refname) = (resolutions, None)" for resolutions
  proof -
    from that have "walkRoots e1 (matchingRoots refname (stored e1)) [] = (resolutions, None)"
      by (auto simp: ResolveReference_eq split: option.splits prod.splits)
    from walkRoots_records[OF this _ mt'] roots show ?thesis by simp
  qed
  have total: "\<exists>resolutions. fst (ResolveReference e1 refname) = (resolutions, None)"
    if f: "io_fault e1 (length (calls e1)) = None"
      and ok: "\<forall>root \<in> set (matchingRoots refname (stored e)).
                 fst (Walk e root resolveWalkFunc []) = None"
  proof -
    have "\<forall>root \<in> set (matchingRoots refname (stored e1)).
            fst (Walk e1 root resolveWalkFunc []) = None"
      using ok roots b Walk_prune_root[OF mt', of e1 "[]"] by (auto simp: Walk_def)
    from walkRoots_all_ok[OF this, of "[]"] obtain ds
      where "walkRoots e1 (matchingRoots refname (stored e1)) [] = (ds, None)" by blast
    with f show ?thesis by (simp add: ResolveReference_eq)
  qed
  from part total show ?thesis by (simp add: setRefName_def)
qed

theorem AddReferences_then_ResolveReference_witness:
  "AddReferences exEngine ''a'' [exUntagged] = (None, snd (AddReferences exEngine ''a'' [exUntagged])) \<and>
   MediaType exUntagged = MediaTypeImageManifest \<and>
   io_fault (snd (AddReferences exEngine ''a'' [exUntagged]))
     (length (calls (snd (AddReferences exEngine ''a'' [exUntagged])))) = None \<and>
   matchingRoots ''a'' (stored exEngine) = [exManifestA, exManifestA2] \<and>
   fst (Walk exEngine exManifestA resolveWalkFunc []) = None \<and>
   fst (Walk exEngine exManifestA2 resolveWalkFunc []) = None \<and>
   fst (ResolveReference (snd (AddReferences exEngine ''a'' [exUntagged])) ''a'') =
     ([exManifestA, exManifestA2, setRefName ''a'' exUntagged], None) \<and>
   setRefName ''a'' exUntagged \<in> set [exManifestA, exManifestA2, setRefName ''a'' exUntagged] \<and>
   Digest (setRefName ''a'' exUntagged) = Digest exUntagged \<and>
   MediaType (setRefName ''a'' exUntagged) = MediaType exUntagged"
proof -
  let ?e1 = "snd (AddReferences exEngine ''a'' [exUntagged])"
  have a: "AddReferences exEngine ''a'' [exUntagged] = (None, ?e1)"
    by (simp add: AddReferences_eq exEngine_def Let_def)
  have mt: "MediaType exUntagged = MediaTypeImageManifest" by (simp add: exUntagged_def)
  have f: "io_fault ?e1 (length (calls ?e1)) = None"
    by (simp add: AddReferences_eq exEngine_def Let_def)
  have old: "matchingRoots ''a'' (stored exEngine) = [exManifestA, exManifestA2]"
    by (simp add: matchingRoots_filter ex_defs map_index_def)
  have roots: "matchingRoots ''a'' (stored ?e1) =
                 [exManifestA, exManifestA2, setRefName ''a'' exUntagged]"
    by (simp add: AddReferences_eq exEngine_def Let_def matchingRoots_filter map_index_setRefName)
       (simp add: map_index_def exManifestA_def exManifestA2_def exUntagged_def)
  have m1: "\<not> (isKnownMediaType (MediaType exManifestA) \<and>
               MediaType exManifestA \<noteq> MediaTypeImageManifest)"
    by (simp add: exManifestA_def)
  have m2: "\<not> (isKnownMediaType (MediaType exManifestA2) \<and>
               MediaType exManifestA2 \<noteq> MediaTypeImageManifest)"
    by (simp add: exManifestA2_def)
  have m3: "\<not> (isKnownMediaType (MediaType (setRefName ''a'' exUntagged)) \<and>
               MediaType (setRefName ''a'' exUntagged) \<noteq> MediaTypeImageManifest)"
    by (simp add: setRefName_def exUntagged_def)
  have ok: "\<forall>root \<in> set (matchingRoots ''a'' (stored exEngine)).
              fst (Walk exEngine root resolveWalkFunc []) = None"
    by (simp add: old Walk_prune_root[OF m1] Walk_prune_root[OF m2])
  have r: "fst (ResolveReference ?e1 ''a'') =
             ([exManifestA, exManifestA2, setRefName ''a'' exUntagged], None)"
    by (simp add: ResolveReference_eq f roots Walk_prune_root[OF m1] Walk_prune_root[OF m2]
        Walk_prune_root[OF m3])
  from AddReferences_then_ResolveReference[OF a mt] a mt f ok r old
  show ?thesis by simp
qed

text \<open>
  C9. When the store does not fail during the four accesses of two \<open>DeleteReference\<close>
  calls in a row for the same name, both calls succeed; the first commits the entries
  whose reference name differs, the second commits an index identical to that one and
  leaves it stored. When no entry matches, the first call already leaves the stored
  index as it was.
\<close>

theorem DeleteReference_idempotent:
  assumes nofault: "\<forall>k<4. io_fault e (length (calls e) + k) = None"
    and first: "DeleteReference e refname = (r1, e1)"
    and second: "DeleteReference e1 refname = (r2, e2)"
  shows "r1 = None \<and> r2 = None \<and> stored e2 = stored e1 \<and>
         last (calls e2) = CallPutIndex (stored e1) \<and>
         Manifests (stored e1) =
           filter (\<lambda>d. map_index (Annotations d) AnnotationRefName \<noteq> refname)
                  (Manifests (stored e)) \<and>
         ((\<forall>d \<in> set (Manifests (stored e)).
             map_index (Annotations d) AnnotationRefName \<noteq> refname) \<longrightarrow>
          stored e1 = stored e)"
proof -
  let ?keep = "\<lambda>d. map_index (Annotations d) AnnotationRefName \<noteq> refname"
  from nofault have f0: "io_fault e (length (calls e)) = None"
    and f1: "io_fault e (Suc (length (calls e))) = None"
    and f2: "io_fault e (Suc (Suc (length (calls e)))) = None"
    and f3: "io_fault e (Suc (Suc (Suc (length (calls e))))) = None"
    using nofault[rule_format, of 0] nofault[rule_format, of 1]
      nofault[rule_format, of 2] nofault[rule_format, of 3]
    by (simp_all add: numeral_2_eq_2 numeral_3_eq_3)
  let ?ix1 = "(stored e)\<lparr>Manifests := filter ?keep (Manifests (stored e))\<rparr>"
  from first f0 f1 have r1: "r1 = None"
    and e1: "e1 = e\<lparr>stored := ?ix1, calls := calls e @ [CallGetIndex, CallPutIndex ?ix1]\<rparr>"
    by (simp_all add: DeleteReference_eq Let_def)
  have again: "(stored e1)\<lparr>Manifests := filter ?keep (Manifests (stored e1))\<rparr> = stored e1"
    by (simp add: e1)
  from e1 f2 f3 have g2: "io_fault e1 (length (calls e1)) = None"
    and g3: "io_fault e1 (Suc (length (calls e1))) = None"
    by simp_all
  from second g2 g3 have r2: "r2 = None"
    and e2: "e2 = e1\<lparr>stored := stored e1,
                      calls := calls e1 @ [CallGetIndex, CallPutIndex (stored e1)]\<rparr>"
    by (simp_all add: DeleteReference_eq Let_def again)
  have unchanged: "stored e1 = stored e"
    if "\<forall>d \<in> set (Manifests (stored e)). ?keep d"
  proof -
    from that have "filter ?keep (Manifests (stored e)) = Manifests (stored e)"
      by (simp add: filter_id_conv)
    then show ?thesis by (simp add: e1)
  qed
  from r1 r2 e1 e2 unchanged show ?thesis by simp
qed

theorem DeleteReference_idempotent_witness:
  "calls exEngine = [] \<and>
   io_fault exEngine 0 = None \<and> io_fault exEngine 1 = None \<and>
   io_fault exEngine 2 = None \<and> io_fault exEngine 3 = None \<and>
   fst (DeleteReference exEngine ''a'') = None \<and>
   fst (DeleteReference (snd (DeleteReference exEngine ''a'')) ''a'') = None \<and>
   stored (snd (DeleteReference (snd (DeleteReference exEngine ''a'')) ''a'')) =
     stored (snd (DeleteReference exEngine ''a'')) \<and>
   Manifests (stored (snd (DeleteReference exEngine ''a''))) = [exUntagged] \<and>
   map (\<lambda>d. map_index (Annotations d) AnnotationRefName) (Manifests (stored exEngine)) =
     [''a'', '''', ''a''] \<and>
   stored (snd (DeleteReference exEngine ''b'')) = stored exEngine"
proof -
  have nf: "\<forall>k<4. io_fault exEngine (length (calls exEngine) + k) = None"
    by (simp add: exEngine_def)
  have keep: "filter (\<lambda>d. map_index (Annotations d) AnnotationRefName \<noteq> ''a'')
                (Manifests (stored exEngine)) = [exUntagged]"
    by (simp add: ex_defs map_index_def)
  have nob: "\<forall>d \<in> set (Manifests (stored exEngine)).
               map_index (Annotations d) AnnotationRefName \<noteq> ''b''"
    by (simp add: ex_defs map_index_def)
  from DeleteReference_idempotent[OF nf surjective_pairing surjective_pairing, of "''a''"]
    DeleteReference_idempotent[OF nf surjective_pairing surjective_pairing, of "''b''"]
    nf keep nob
  show ?thesis by (simp add: exEngine_def) (simp add: ex_defs map_index_def)
qed

text \<open>
  C10. A top-level descriptor whose annotations map is nil, or has no reference annotation
  key, reads as the empty reference name. So for the empty \<open>refname\<close> it is one of the
  roots of \<open>ResolveReference\<close> (and, being an image manifest, is in the result when the
  call succeeds), a successful \<open>DeleteReference\<close> removes it, and a successful
  \<open>UpdateReference\<close> keeps it nowhere before the appended descriptor.
\<close>

theorem empty_refname_matches_untagged:
  assumes untagged: "Annotations d = None \<or>
                     (\<exists>m. Annotations d = Some m \<and> m AnnotationRefName = None)"
    and top: "d \<in> set (Manifests (stored e))"
  shows "map_index (Annotations d) AnnotationRefName = '''' \<and>
         d \<in> set (matchingRoots '''' (stored e)) \<and>
         (MediaType d = MediaTypeImageManifest \<and>
          ResolveReference e '''' = ((resolutions, None), e0) \<longrightarrow> d \<in> set resolutions) \<and>
         (DeleteReference e '''' = (None, e1) \<longrightarrow> d \<notin> set (Manifests (stored e1))) \<and>
         (UpdateReference e '''' D = (None, e2) \<longrightarrow>
            d \<notin> set (butlast (Manifests (stored e2))) \<and>
            last (Manifests (stored e2)) = setRefName '''' D)"
proof -
  from untagged have emp: "map_index (Annotations d) AnnotationRefName = ''''"
    by (auto simp: map_index_def)
  with top have root: "d \<in> set (matchingRoots '''' (stored e))"
    by (simp add: matchingRoots_filter)
  have res: "d \<in> set resolutions"
    if "MediaType d = MediaTypeImageManifest \<and>
        ResolveReference e '''' = ((resolutions, None), e0)"
  proof -
    from that have "walkRoots e (matchingRoots '''' (stored e)) [] = (resolutions, None)"
      by (auto simp: ResolveReference_eq split: option.splits prod.splits)
    from walkRoots_records[OF this root] that show ?thesis by simp
  qed
  have del: "d \<notin> set (Manifests (stored e1))" if "DeleteReference e '''' = (None, e1)"
    using that emp by (auto simp: DeleteReference_eq Let_def split: option.splits)
  have upd: "d \<notin> set (butlast (Manifests (stored e2))) \<and>
             last (Manifests (stored e2)) = setRefName '''' D"
    if "UpdateReference e '''' D = (None, e2)"
    using that emp by (auto simp: UpdateReference_eq Let_def split: option.splits)
  from emp root res del upd show ?thesis by blast
qed

theorem empty_refname_matches_untagged_witness:
  "Annotations exUntagged = None \<and>
   exUntagged \<in> set (Manifests (stored exEngine)) \<and>
   map_index (Annotations exUntagged) AnnotationRefName = '''' \<and>
   exUntagged \<in> set (matchingRoots '''' (stored exEngine)) \<and>
   MediaType exUntagged = MediaTypeImageManifest \<and>
   ResolveReference exEngine '''' = (([exUntagged], None), snd (ResolveReference exEngine '''')) \<and>
   DeleteReference exEngine '''' = (None, snd (DeleteReference exEngine '''')) \<and>
   exUntagged \<notin> set (Manifests (stored (snd (DeleteReference exEngine '''')))) \<and>
   UpdateReference exEngine '''' exManifestA = (None, snd (UpdateReference exEngine '''' exManifestA)) \<and>
   exUntagged \<notin> set (butlast (Manifests (stored (snd (UpdateReference exEngine '''' exManifestA)))))"
proof -
  have n: "Annotations exUntagged = None" by (simp add: exUntagged_def)
  then have u: "Annotations exUntagged = None \<or>
                (\<exists>m. Annotations exUntagged = Some m \<and> m AnnotationRefName = None)" by simp
  have t: "exUntagged \<in> set (Manifests (stored exEngine))" by (simp add: exEngine_def)
  have mt: "MediaType exUntagged = MediaTypeImageManifest" by (simp add: exUntagged_def)
  have m: "\<not> (isKnownMediaType (MediaType exUntagged) \<and>
               MediaType exUntagged \<noteq> MediaTypeImageManifest)"
    by (simp add: exUntagged_def)
  have roots: "matchingRoots '''' (stored exEngine) = [exUntagged]"
    by (simp add: matchingRoots_filter ex_defs map_index_def)
  have f: "io_fault exEngine (length (calls exEngine)) = None" by (simp add: exEngine_def)
  have r: "ResolveReference exEngine '''' =
             (([exUntagged], None), snd (ResolveReference exEngine ''''))"
    by (simp add: ResolveReference_eq f roots Walk_prune_root[OF m])
  have d: "DeleteReference exEngine '''' = (None, snd (DeleteReference exEngine ''''))"
    by (simp add: DeleteReference_eq exEngine_def Let_def)
  have p: "UpdateReference exEngine '''' exManifestA =
             (None, snd (UpdateReference exEngine '''' exManifestA))"
    by (simp add: UpdateReference_eq exEngine_def Let_def)
  from empty_refname_matches_untagged[OF u t, of "[exUntagged]"
      "snd (ResolveReference exEngine '''')" "snd (DeleteReference exEngine '''')"
      exManifestA "snd (UpdateReference exEngine '''' exManifestA)"] n t mt r d p
  show ?thesis by simp
qed

end
